theory Spec2Isabelle
  imports Complex_Main "HOL-Library.Multiset" "HOL-Library.AList"
    "HOL-Library.List_Lexorder" "HOL-Library.Char_ord"
begin

section \<open>Values of Python and of JSON\<close>

text \<open>
  A JSON document as \<^verbatim>\<open>json.load\<close> returns it: an object is the list of the items of
  the loaded dictionary. A float is carried as its value; no arithmetic on it is modelled.
\<close>

datatype json =
    JNull
  | JBool bool
  | JInt int
  | JFloat real
  | JString string
  | JArray "json list"
  | JObject "(string \<times> json) list"

text \<open>
  The settings file on disk: absent, present but not readable as JSON (\<^verbatim>\<open>open\<close>, the
  decoding or the parser raises), or holding a document.
\<close>

datatype config_file = Missing | Broken | Holds json

text \<open>
  A Python dictionary with string keys, as the list of its items in insertion order.
  \<^verbatim>\<open>d[k] = v\<close> is \<^const>\<open>AList.update\<close>: it replaces the value in place or appends
  the item. \<^verbatim>\<open>{**d, **l}\<close> stores the items of \<^verbatim>\<open>l\<close> into a copy of \<^verbatim>\<open>d\<close>, in order.
\<close>

type_synonym 'v dict = "(string \<times> 'v) list"

definition dict_merge :: "'v dict \<Rightarrow> 'v dict \<Rightarrow> 'v dict" where
  "dict_merge d l = fold (\<lambda>kv. AList.update (fst kv) (snd kv)) l d"

section \<open>The settings store of the Qt player (src/main.py, class Config)\<close>

definition DEFAULT_CONFIG :: "json dict" where
  "DEFAULT_CONFIG =
     [(''image_folder'', JString []),
      (''recursive'', JBool True),
      (''interval'', JInt 5),
      (''random'', JBool True),
      (''fullscreen'', JBool True),
      (''scale_mode'', JString ''fit''),
      (''extensions'', JArray [JString ''.jpg'', JString ''.jpeg'', JString ''.png'',
         JString ''.bmp'', JString ''.gif'', JString ''.tiff'', JString ''.webp'']),
      (''rescan_interval'', JInt 300),
      (''show_info'', JBool True),
      (''show_clock'', JBool True),
      (''font_path'', JNull),
      (''font_size'', JInt 20),
      (''info_color'', JString ''#FFFFFF''),
      (''background_color'', JString ''#000000'')]"

text \<open>
  A \<^verbatim>\<open>Config\<close> object: the dictionary \<^verbatim>\<open>self.config\<close>, and the file behind
  \<^verbatim>\<open>self.config_file\<close> with whether it can be opened for writing. The values of the
  dictionary are JSON values: the defaults are, what \<^verbatim>\<open>json.load\<close> returns is, and the
  player only stores booleans and strings.
\<close>

record Config =
  config_file :: config_file
  writable :: bool
  config :: "json dict"

text \<open>
  \<^verbatim>\<open>Config.load\<close>. Unpacking \<^verbatim>\<open>**loaded\<close> raises TypeError when the document is not an
  object; every exception of the \<^verbatim>\<open>try\<close> block is caught and falls through to the copy
  of the defaults.
\<close>

fun Config_load :: "config_file \<Rightarrow> json dict" where
  "Config_load Missing = DEFAULT_CONFIG"
| "Config_load Broken = DEFAULT_CONFIG"
| "Config_load (Holds (JObject loaded)) = dict_merge DEFAULT_CONFIG loaded"
| "Config_load (Holds _) = DEFAULT_CONFIG"

text \<open>\<^verbatim>\<open>Config.__init__\<close>: the dictionary is loaded from the file.\<close>

definition Config_init :: "config_file \<Rightarrow> bool \<Rightarrow> Config" where
  "Config_init f w = \<lparr>config_file = f, writable = w, config = Config_load f\<rparr>"

text \<open>
  \<^verbatim>\<open>Config.save\<close>: the whole dictionary is written as one object. When the file
  cannot be opened for writing the exception is caught and printed, and the file stays
  as it was.
\<close>

definition Config_save :: "Config \<Rightarrow> Config" where
  "Config_save c =
     (if writable c then c\<lparr>config_file := Holds (JObject (config c))\<rparr> else c)"

definition Config_get :: "Config \<Rightarrow> string \<Rightarrow> json \<Rightarrow> json" where
  "Config_get c key dflt =
     (case map_of (config c) key of None \<Rightarrow> dflt | Some v \<Rightarrow> v)"

definition Config_set :: "Config \<Rightarrow> string \<Rightarrow> json \<Rightarrow> Config" where
  "Config_set c key val = Config_save (c\<lparr>config := AList.update key val (config c)\<rparr>)"

section \<open>The settings of the pygame player (old/main.py, class Config)\<close>

text \<open>
  The values an attribute of the old \<^verbatim>\<open>Config\<close> can hold: besides what JSON gives,
  a tuple (the background colour) and a set (the accepted extensions, in some iteration
  order).
\<close>

datatype pyval =
    PNone
  | PBool bool
  | PInt int
  | PFloat real
  | PStr string
  | PList "pyval list"
  | PTuple "pyval list"
  | PSet "pyval list"
  | PDict "(string \<times> pyval) list"

text \<open>
  What \<^verbatim>\<open>json.dump\<close> writes for a value: a tuple is written as an array, and a set is
  not serialisable (\<^verbatim>\<open>TypeError\<close>, here \<open>None\<close>).
\<close>

fun to_json :: "pyval \<Rightarrow> json option" where
  "to_json PNone = Some JNull"
| "to_json (PBool b) = Some (JBool b)"
| "to_json (PInt i) = Some (JInt i)"
| "to_json (PFloat x) = Some (JFloat x)"
| "to_json (PStr s) = Some (JString s)"
| "to_json (PList vs) = map_option JArray (those (map to_json vs))"
| "to_json (PTuple vs) = map_option JArray (those (map to_json vs))"
| "to_json (PSet vs) = None"
| "to_json (PDict kvs) =
     map_option JObject
       (those (map (\<lambda>kv. map_option (Pair (fst kv)) (to_json (snd kv))) kvs))"

text \<open>What \<^verbatim>\<open>json.load\<close> builds from a document.\<close>

fun of_json :: "json \<Rightarrow> pyval" where
  "of_json JNull = PNone"
| "of_json (JBool b) = PBool b"
| "of_json (JInt i) = PInt i"
| "of_json (JFloat x) = PFloat x"
| "of_json (JString s) = PStr s"
| "of_json (JArray vs) = PList (map of_json vs)"
| "of_json (JObject kvs) = PDict (map (\<lambda>kv. (fst kv, of_json (snd kv))) kvs)"

text \<open>
  An old \<^verbatim>\<open>Config\<close> object is the dictionary of its instance attributes;
  \<^verbatim>\<open>Config()\<close> sets these.
\<close>

definition Config_new :: "pyval dict" where
  "Config_new =
     [(''image_folder'', PStr ''images''),
      (''interval'', PFloat 5),
      (''random_order'', PBool True),
      (''fullscreen'', PBool True),
      (''scale_mode'', PStr ''fit''),
      (''background_color'', PTuple [PInt 0, PInt 0, PInt 0]),
      (''recursive'', PBool True),
      (''valid_extensions'', PSet [PStr ''.jpg'', PStr ''.jpeg'', PStr ''.png'',
         PStr ''.bmp'', PStr ''.gif'', PStr ''.tiff'', PStr ''.webp'']),
      (''fps'', PInt 60),
      (''rescan_interval'', PInt 30),
      (''show_info'', PBool True),
      (''auto_restart'', PBool True),
      (''font_path'', PNone),
      (''font_size'', PInt 36),
      (''small_font_size'', PInt 24),
      (''force_fullscreen'', PBool True),
      (''fullscreen_mode'', PStr ''fullscreen''),
      (''screen_width'', PInt 0),
      (''screen_height'', PInt 0)]"

text \<open>
  \<^verbatim>\<open>hasattr(config, key)\<close>: an instance attribute or one of the two methods of the
  class. The names every Python object inherits (they start with two underscores) are
  not modelled.
\<close>

definition hasattr :: "pyval dict \<Rightarrow> string \<Rightarrow> bool" where
  "hasattr c key =
     (key \<in> fst ` set c \<or> key = ''load_from_file'' \<or> key = ''save_to_file'')"

text \<open>One round of the loop over \<^verbatim>\<open>data.items()\<close> in \<^verbatim>\<open>load_from_file\<close>.\<close>

definition load_item :: "string \<times> pyval \<Rightarrow> pyval dict \<Rightarrow> pyval dict" where
  "load_item kv c =
     (if hasattr c (fst kv)
      then (case snd kv of
              PList vs \<Rightarrow>
                if fst kv = ''background_color''
                then AList.update (fst kv) (PTuple vs) c
                else AList.update (fst kv) (PList vs) c
            | v \<Rightarrow> AList.update (fst kv) v c)
      else c)"

text \<open>
  \<^verbatim>\<open>Config.load_from_file\<close>: a document that is not an object has no \<^verbatim>\<open>items\<close>, and
  that exception is caught like those of reading and parsing.
\<close>

fun load_from_file :: "config_file \<Rightarrow> pyval dict" where
  "load_from_file Missing = Config_new"
| "load_from_file Broken = Config_new"
| "load_from_file (Holds (JObject data)) =
     fold load_item (map (\<lambda>kv. (fst kv, of_json (snd kv))) data) Config_new"
| "load_from_file (Holds _) = Config_new"

text \<open>
  \<^verbatim>\<open>Config.save_to_file\<close>. \<^verbatim>\<open>data\<close> takes the attributes that \<^verbatim>\<open>dir(self)\<close> lists
  (sorted by name), without those whose name starts with an underscore; the values of
  the instance attributes are not callable. Opening the file for writing empties it, so
  when \<^verbatim>\<open>json.dump\<close> then raises on a value it cannot serialise, what is left on disk is
  no JSON document. Every exception is caught and printed.
\<close>

definition save_data :: "pyval dict \<Rightarrow> pyval dict" where
  "save_data c = filter (\<lambda>kv. take 1 (fst kv) \<noteq> ''_'') (sort_key fst c)"

definition save_to_file :: "pyval dict \<Rightarrow> bool \<Rightarrow> config_file \<Rightarrow> config_file" where
  "save_to_file c can_write f =
     (if \<not> can_write then f
      else (case to_json (PDict (save_data c)) of
              None \<Rightarrow> Broken
            | Some doc \<Rightarrow> Holds doc))"

section \<open>Paths and the directory tree\<close>

text \<open>
  The directory tree that \<^verbatim>\<open>pathlib\<close> and \<^verbatim>\<open>os\<close> look at. A directory carries a flag
  saying whether the process may list it (whether \<^verbatim>\<open>scandir\<close> succeeds or raises
  \<^verbatim>\<open>PermissionError\<close>) and its entries by name, in the order \<^verbatim>\<open>scandir\<close> returns them. Symbolic links are left out.
\<close>

datatype node = File | Dir bool "(string \<times> node) list"

fun lookup_entry :: "(string \<times> node) list \<Rightarrow> string \<Rightarrow> node option" where
  "lookup_entry [] name = None"
| "lookup_entry ((n, c) # es) name = (if n = name then Some c else lookup_entry es name)"

text \<open>The node a list of names leads to from a directory, if there is one.\<close>

fun resolve :: "node \<Rightarrow> string list \<Rightarrow> node option" where
  "resolve t [] = Some t"
| "resolve File (c # cs) = None"
| "resolve (Dir ok es) (c # cs) =
     (case lookup_entry es c of None \<Rightarrow> None | Some t \<Rightarrow> resolve t cs)"

fun is_dir :: "node \<Rightarrow> bool" where
  "is_dir File = False"
| "is_dir (Dir ok es) = True"










section \<open>The catalog scanner of the Qt player (src/main.py, class ImageScanner)\<close>






section \<open>Python lists and the random generator\<close>

datatype py_error = IndexError | AttributeError

text \<open>
  \<^verbatim>\<open>xs[i]\<close>: an index from \<open>-len\<close> up to \<open>len - 1\<close> is served, the negative ones counting
  from the end; any other raises.
\<close>

definition getitem :: "'a list \<Rightarrow> int \<Rightarrow> py_error + 'a" where
  "getitem xs i =
     (if 0 \<le> i \<and> i < int (length xs) then Inr (xs ! nat i)
      else if - int (length xs) \<le> i \<and> i < 0 then Inr (xs ! nat (int (length xs) + i))
      else Inl IndexError)"

text \<open>
  The generator of the module \<^verbatim>\<open>random\<close> is the sequence of its raw outputs; a state of
  the program remembers how many of them it has used. \<^verbatim>\<open>randint(a, b)\<close> uses one output
  and returns a number from \<open>a\<close> to \<open>b\<close>. Which distribution the outputs follow is not
  part of the model.
\<close>

type_synonym rng = "nat \<Rightarrow> nat"

definition randbelow :: "rng \<Rightarrow> nat \<Rightarrow> nat \<Rightarrow> nat" where
  "randbelow g k n = g k mod n"

definition randint :: "rng \<Rightarrow> nat \<Rightarrow> int \<Rightarrow> int \<Rightarrow> int" where
  "randint g k a b = a + int (randbelow g k (nat (b - a + 1)))"

text \<open>
  \<^verbatim>\<open>random.shuffle(x)\<close>: for \<open>i\<close> from \<open>len(x) - 1\<close> down to 1, swap \<open>x[i]\<close> with
  \<open>x[j]\<close> for a random \<open>j \<le> i\<close>. It uses \<open>len(x) - 1\<close> outputs of the generator.
\<close>

fun shuffle_loop :: "rng \<Rightarrow> nat \<Rightarrow> nat \<Rightarrow> 'a list \<Rightarrow> 'a list" where
  "shuffle_loop g k 0 x = x"
| "shuffle_loop g k (Suc i) x =
     (let j = randbelow g k (Suc i + 1)
      in shuffle_loop g (Suc k) i (x[Suc i := x ! j, j := x ! Suc i]))"

definition shuffle :: "rng \<Rightarrow> nat \<Rightarrow> 'a list \<Rightarrow> 'a list" where
  "shuffle g k x = shuffle_loop g k (length x - 1) x"

section \<open>The Qt player (src/main.py, class SlideshowWindow)\<close>

text \<open>
  What the viewer's information line shows: nothing yet, the notice that no image was
  found, or the line of an image, kept as the values it is formatted from (the path whose
  name is shown, the position counted from one, the length of the catalog, the order
  mode, the scale mode before it is put in upper case, and the interval setting).
\<close>

datatype info =
    Info_blank
  | Info_not_found
  | Info_image string int nat bool string "json option"

text \<open>
  The state of the window that the playback methods read and write: the settings object,
  the catalog, the playback index, the order mode, the viewer's scale mode, information
  line and decoded image (named by its path), whether the playback timer is running, and
  the number of generator outputs used so far.
\<close>

record window =
  win_config :: Config
  images :: "string list"
  current_index :: int
  is_random :: bool
  viewer_scale_mode :: json
  info_text :: info
  current_pixmap :: "string option"
  play_timer :: bool
  draws :: nat

text \<open>
  The assignment to \<^verbatim>\<open>self.current_index\<close> in \<^verbatim>\<open>next_image\<close>, for a catalog that is
  not empty.
\<close>

definition next_index :: "rng \<Rightarrow> window \<Rightarrow> window" where
  "next_index g s =
     (if is_random s
      then s\<lparr>current_index := randint g (draws s) 0 (int (length (images s)) - 1),
             draws := Suc (draws s)\<rparr>
      else s\<lparr>current_index := (current_index s + 1) mod int (length (images s))\<rparr>)"

text \<open>
  \<^verbatim>\<open>show_current_image\<close> and \<^verbatim>\<open>next_image\<close> call each other: when \<^verbatim>\<open>set_image\<close> fails
  the first calls the second, which moves the index and calls the first again. Here the
  body of \<^verbatim>\<open>next_image\<close> stands in place of that call (its guard on the empty catalog
  has already been passed), and \<^verbatim>\<open>next_image\<close> itself is defined after. The parameter
  \<open>dec\<close> says for which paths \<^verbatim>\<open>set_image\<close> succeeds. \<^verbatim>\<open>set_image\<close> stores the scale mode
  in the viewer before it tries to decode. A chain of calls that never ends is the
  value \<open>None\<close>; the interpreter's limit on the depth of recursion is not modelled.
\<close>

partial_function (option)
  show_current_image :: "(string \<Rightarrow> bool) \<Rightarrow> rng \<Rightarrow> window \<Rightarrow> (py_error + window) option"
where
  "show_current_image dec g s =
     (if images s = [] then Some (Inr s)
      else case getitem (images s) (current_index s) of
        Inl e \<Rightarrow> Some (Inl e)
      | Inr image_path \<Rightarrow>
          let scale_mode = Config_get (win_config s) ''scale_mode'' (JString ''fit'');
              s1 = s\<lparr>viewer_scale_mode := scale_mode\<rparr>
          in if dec image_path
             then (case scale_mode of
                     JString m \<Rightarrow>
                       Some (Inr (s1\<lparr>current_pixmap := Some image_path,
                                      info_text := Info_image image_path (current_index s + 1)
                                        (length (images s)) (is_random s) m
                                        (map_of (config (win_config s)) ''interval'')\<rparr>))
                   | _ \<Rightarrow> Some (Inl AttributeError))
             else show_current_image dec g (next_index g s1))"

definition next_image :: "(string \<Rightarrow> bool) \<Rightarrow> rng \<Rightarrow> window \<Rightarrow> (py_error + window) option" where
  "next_image dec g s =
     (if images s = [] then Some (Inr s)
      else show_current_image dec g (next_index g s))"

definition prev_image :: "(string \<Rightarrow> bool) \<Rightarrow> rng \<Rightarrow> window \<Rightarrow> (py_error + window) option" where
  "prev_image dec g s =
     (if images s = [] then Some (Inr s)
      else show_current_image dec g
             (if \<not> is_random s
              then s\<lparr>current_index := (current_index s - 1) mod int (length (images s))\<rparr>
              else s))"

definition toggle_random :: "(string \<Rightarrow> bool) \<Rightarrow> rng \<Rightarrow> window \<Rightarrow> (py_error + window) option" where
  "toggle_random dec g s =
     (let s1 = s\<lparr>is_random := \<not> is_random s\<rparr>;
          s2 = s1\<lparr>win_config := Config_set (win_config s1) ''random'' (JBool (is_random s1))\<rparr>;
          s3 = (if is_random s2
                then s2\<lparr>images := shuffle g (draws s2) (images s2),
                        draws := draws s2 + (length (images s2) - 1)\<rparr>
                else s2)
      in show_current_image dec g s3)"


text \<open>The keys that move through the catalog, and a run of key presses.\<close>

datatype key = Key_Right | Key_Left



section \<open>The pygame player (old/main.py, classes ImageLoader and ImagePlayer)\<close>

text \<open>
  The state the playback methods of \<^verbatim>\<open>ImagePlayer\<close> read and write: the loader's list of
  files, the playback index, the two settings \<^verbatim>\<open>random_order\<close> and \<^verbatim>\<open>auto_restart\<close>, the
  surface on screen (named by the path it was loaded from), and the number of generator
  outputs used so far. The time stamps the methods also set are left out.
\<close>

record player =
  image_files :: "string list"
  current_image_index :: int
  random_order :: bool
  auto_restart :: bool
  current_surface :: "string option"
  used :: nat

text \<open>\<^verbatim>\<open>ImageLoader.shuffle\<close> and \<^verbatim>\<open>ImageLoader.sort\<close>, on the loader's own list.\<close>

definition ImageLoader_shuffle :: "rng \<Rightarrow> player \<Rightarrow> player" where
  "ImageLoader_shuffle g s =
     (if image_files s \<noteq> []
      then s\<lparr>image_files := shuffle g (used s) (image_files s),
             used := used s + (length (image_files s) - 1)\<rparr>
      else s)"

definition ImageLoader_sort :: "player \<Rightarrow> player" where
  "ImageLoader_sort s =
     (if image_files s \<noteq> [] then s\<lparr>image_files := sort (image_files s)\<rparr> else s)"

text \<open>
  \<^verbatim>\<open>_load_next_image\<close>. \<^verbatim>\<open>_load_image\<close> returns \<^verbatim>\<open>None\<close> for a path it cannot decode
  (\<open>dec\<close> says which it can), and then the method moves the index and calls itself. The
  index it calls itself with is below the length, so the call inside the \<^verbatim>\<open>try\<close>
  block raises nothing and the handler is never entered. A chain of calls that never
  ends is the value \<open>None\<close>; the interpreter's limit on the depth of recursion is not
  modelled.
\<close>

partial_function (option)
  load_next_image :: "(string \<Rightarrow> bool) \<Rightarrow> player \<Rightarrow> (py_error + player) option"
where
  "load_next_image dec s =
     (if image_files s = [] then Some (Inr (s\<lparr>current_surface := None\<rparr>))
      else
        let s1 = (if current_image_index s \<ge> int (length (image_files s))
                  then s\<lparr>current_image_index := 0\<rparr> else s)
        in case getitem (image_files s1) (current_image_index s1) of
             Inl e \<Rightarrow> Some (Inl e)
           | Inr image_path \<Rightarrow>
               if dec image_path then Some (Inr (s1\<lparr>current_surface := Some image_path\<rparr>))
               else load_next_image dec
                      (s1\<lparr>current_surface := None,
                          current_image_index :=
                            (current_image_index s1 + 1) mod int (length (image_files s1))\<rparr>))"

text \<open>\<^verbatim>\<open>_next_image\<close>.\<close>

definition ImagePlayer_next_image ::
  "(string \<Rightarrow> bool) \<Rightarrow> rng \<Rightarrow> player \<Rightarrow> (py_error + player) option" where
  "ImagePlayer_next_image dec g s =
     (if image_files s = [] then Some (Inr s)
      else
        let s1 = s\<lparr>current_image_index := current_image_index s + 1\<rparr>;
            s2 = (if current_image_index s1 \<ge> int (length (image_files s1))
                  then (let s' = s1\<lparr>current_image_index := 0\<rparr>
                        in if random_order s' \<and> auto_restart s'
                           then ImageLoader_shuffle g s' else s')
                  else s1)
        in load_next_image dec s2)"

text \<open>\<^verbatim>\<open>_prev_image\<close>.\<close>

definition ImagePlayer_prev_image ::
  "(string \<Rightarrow> bool) \<Rightarrow> player \<Rightarrow> (py_error + player) option" where
  "ImagePlayer_prev_image dec s =
     (if image_files s = [] then Some (Inr s)
      else
        let s1 = s\<lparr>current_image_index := current_image_index s - 1\<rparr>;
            s2 = (if current_image_index s1 < 0
                  then s1\<lparr>current_image_index := int (length (image_files s1)) - 1\<rparr>
                  else s1)
        in load_next_image dec s2)"

text \<open>\<^verbatim>\<open>_toggle_random_order\<close>.\<close>

definition toggle_random_order ::
  "(string \<Rightarrow> bool) \<Rightarrow> rng \<Rightarrow> player \<Rightarrow> (py_error + player) option" where
  "toggle_random_order dec g s =
     (let s1 = s\<lparr>random_order := \<not> random_order s\<rparr>
      in if image_files s1 \<noteq> []
         then
           let s2 = (if random_order s1 then ImageLoader_shuffle g s1 else ImageLoader_sort s1)
           in load_next_image dec (s2\<lparr>current_image_index := 0\<rparr>)
         else Some (Inr s1))"

section \<open>The file-counting utility (src/test\_scanner.py)\<close>

text \<open>
  \<^verbatim>\<open>os.walk(top)\<close> with its defaults (top-down, \<^verbatim>\<open>onerror=None\<close>): one triple per
  directory visited, here the names of its sub-directories and of its other entries.
  An error of \<^verbatim>\<open>scandir\<close> is passed to \<^verbatim>\<open>onerror\<close> when there is one and is dropped
  otherwise; the directory then yields nothing and the walk goes on.
\<close>

fun walk :: "node \<Rightarrow> (string list \<times> string list) list" where
  "walk File = []"
| "walk (Dir ok es) =
     (if ok
      then (map fst (filter (\<lambda>e. is_dir (snd e)) es),
            map fst (filter (\<lambda>e. \<not> is_dir (snd e)) es))
           # concat (map (\<lambda>e. walk (snd e)) (filter (\<lambda>e. is_dir (snd e)) es))
      else [])"

text \<open>
  \<^verbatim>\<open>count_all_files(folder_path)\<close>. The two early returns are the first two branches.
  The \<^verbatim>\<open>try\<close> block only iterates \<^verbatim>\<open>os.walk\<close>, which raises nothing, so neither
  \<^verbatim>\<open>except\<close> clause has anything to catch.
\<close>

definition count_all_files :: "node \<Rightarrow> string list \<Rightarrow> int" where
  "count_all_files fs folder_path =
     (case resolve fs folder_path of
        None \<Rightarrow> - 1
      | Some t \<Rightarrow>
          if \<not> is_dir t then - 1
          else int (sum_list (map (\<lambda>(dirs, files). length files) (walk t))))"

section \<open>States and inputs the properties are stated with\<close>

text \<open>
  The window after \<^verbatim>\<open>show_current_image\<close> has displayed the image at the current
  index under the scale mode \<open>m\<close> (the branch \<^verbatim>\<open>if success\<close>).
\<close>

definition shown :: "window \<Rightarrow> string \<Rightarrow> window" where
  "shown s m =
     s\<lparr>viewer_scale_mode := JString m,
       current_pixmap := Some (images s ! nat (current_index s)),
       info_text := Info_image (images s ! nat (current_index s)) (current_index s + 1)
         (length (images s)) (is_random s) m (map_of (config (win_config s)) ''interval'')\<rparr>"

text \<open>The setting \<^verbatim>\<open>scale_mode\<close> is the string \<open>m\<close> (or is absent and \<open>m\<close> is the default).\<close>

definition scale_mode_str :: "window \<Rightarrow> string \<Rightarrow> bool" where
  "scale_mode_str s m = (Config_get (win_config s) ''scale_mode'' (JString ''fit'') = JString m)"

text \<open>The pygame player after \<^verbatim>\<open>_load_next_image\<close> has loaded the image at index \<open>i\<close>.\<close>

definition loaded :: "player \<Rightarrow> nat \<Rightarrow> player" where
  "loaded s i = s\<lparr>current_image_index := int i, current_surface := Some (image_files s ! i)\<rparr>"

text \<open>Decoders and generators for the examples.\<close>

definition all_decode :: "string \<Rightarrow> bool" where
  "all_decode p = True"

definition none_decodes :: "string \<Rightarrow> bool" where
  "none_decodes p = False"

definition all_but :: "string \<Rightarrow> string \<Rightarrow> bool" where
  "all_but bad p = (p \<noteq> bad)"

definition always :: "nat \<Rightarrow> rng" where
  "always c k = c"

text \<open>
  A window on a catalog, at an index and in an order mode, with the default settings
  (no settings file), and a pygame player likewise.
\<close>

definition window_on :: "string list \<Rightarrow> int \<Rightarrow> bool \<Rightarrow> window" where
  "window_on xs i r =
     \<lparr>win_config = Config_init Missing True, images = xs, current_index = i, is_random = r,
      viewer_scale_mode = JString ''fit'', info_text = Info_blank, current_pixmap = None,
      play_timer = True, draws = 0\<rparr>"

definition player_on :: "string list \<Rightarrow> int \<Rightarrow> bool \<Rightarrow> player" where
  "player_on xs i r =
     \<lparr>image_files = xs, current_image_index = i, random_order = r, auto_restart = True,
      current_surface = None, used = 0\<rparr>"

definition abc :: "string list" where
  "abc = [''a.png'', ''b.png'', ''c.png'']"

definition locked_tree :: node where
  "locked_tree =
     Dir True [(''a.txt'', File),
               (''locked'', Dir False [(''b.txt'', File), (''c.txt'', File)])]"

section \<open>Lemmas on dictionaries\<close>

lemma map_of_dict_merge:
  "map_of (dict_merge d l) = map_of d ++ map_of (rev l)"
  unfolding dict_merge_def
proof (induction l arbitrary: d)
  case Nil
  show ?case by simp
next
  case (Cons kv l)
  have "map_of (fold (\<lambda>kv. AList.update (fst kv) (snd kv)) l (AList.update (fst kv) (snd kv) d))
        = (map_of d)(fst kv \<mapsto> snd kv) ++ map_of (rev l)"
    by (simp only: Cons.IH update_conv')
  also have "\<dots> = map_of d ++ map_of (rev (kv # l))"
    by (cases kv) (simp add: fun_eq_iff map_add_def split: option.splits)
  finally show ?case by simp
qed

lemma map_of_rev_distinct:
  "distinct (map fst xs) \<Longrightarrow> map_of (rev xs) = map_of xs"
  using map_of_inject_set [of "rev xs" xs] by (simp add: rev_map [symmetric])

text \<open>
  In the Qt player a settings dictionary that holds every default key is read back
  unchanged after it has been written.
\<close>

lemma Config_save_load:
  assumes "writable c" "distinct (map fst (config c))"
    "fst ` set DEFAULT_CONFIG \<subseteq> fst ` set (config c)"
  shows "map_of (Config_load (config_file (Config_save c))) = map_of (config c)"
proof -
  have "map_of (Config_load (config_file (Config_save c)))
        = map_of DEFAULT_CONFIG ++ map_of (config c)"
    using assms(1,2) by (simp add: Config_save_def map_of_dict_merge map_of_rev_distinct)
  also have "\<dots> = map_of (config c)"
  proof (rule ext)
    fix k show "(map_of DEFAULT_CONFIG ++ map_of (config c)) k = map_of (config c) k"
    proof (cases "map_of (config c) k")
      case None
      then have "k \<notin> fst ` set (config c)" by (simp add: map_of_eq_None_iff)
      then have "k \<notin> fst ` set DEFAULT_CONFIG" using assms(3) by blast
      then have "map_of DEFAULT_CONFIG k = None" by (simp add: map_of_eq_None_iff)
      with None show ?thesis by (simp add: map_add_def)
    next
      case (Some v)
      then show ?thesis by (simp add: map_add_def)
    qed
  qed
  finally show ?thesis .
qed

section \<open>Lemmas on the skipping of images that do not decode\<close>

lemma getitem_in_range:
  "0 \<le> i \<Longrightarrow> i < int (length xs) \<Longrightarrow> getitem xs i = Inr (xs ! nat i)"
  by (simp add: getitem_def)

lemma show_current_image_success:
  assumes "0 \<le> current_index s" "current_index s < int (length (images s))"
    and "dec (images s ! nat (current_index s))" and "scale_mode_str s m"
  shows "show_current_image dec g s = Some (Inr (shown s m))"
proof -
  from assms(1,2) have ne: "images s \<noteq> []" by auto
  show ?thesis
    using assms ne
    by (subst show_current_image.simps)
       (simp add: getitem_in_range shown_def scale_mode_str_def Let_def)
qed

lemma show_current_image_failure:
  assumes "0 \<le> current_index s" "current_index s < int (length (images s))"
    and "\<not> dec (images s ! nat (current_index s))"
  shows "show_current_image dec g s =
         show_current_image dec g
           (next_index g (s\<lparr>viewer_scale_mode :=
              Config_get (win_config s) ''scale_mode'' (JString ''fit'')\<rparr>))"
proof -
  from assms(1,2) have ne: "images s \<noteq> []" by auto
  show ?thesis
    using assms ne
    by (subst show_current_image.simps) (simp add: getitem_in_range Let_def)
qed

lemma show_current_image_skips:
  assumes "\<not> is_random s" and "current_index s = int i" and "i < length (images s)"
    and "scale_mode_str s m"
    and "\<forall>j<k. \<not> dec (images s ! ((i + j) mod length (images s)))"
    and "dec (images s ! ((i + k) mod length (images s)))"
  shows "show_current_image dec g s =
         Some (Inr (shown (s\<lparr>current_index := int ((i + k) mod length (images s))\<rparr>) m))"
  using assms
proof (induction k arbitrary: s i)
  case 0
  then have "show_current_image dec g s = Some (Inr (shown s m))"
    by (intro show_current_image_success) simp_all
  moreover have "s\<lparr>current_index := int i\<rparr> = s"
    by (simp add: "0.prems"(2) [symmetric])
  ultimately show ?case using "0.prems"(3) by simp
next
  case (Suc k)
  let ?n = "length (images s)"
  let ?s' = "next_index g (s\<lparr>viewer_scale_mode :=
              Config_get (win_config s) ''scale_mode'' (JString ''fit'')\<rparr>)"
  from Suc.prems have fail: "\<not> dec (images s ! i)"
    by (metis add.right_neutral mod_less zero_less_Suc)
  have step: "show_current_image dec g s = show_current_image dec g ?s'"
    using Suc.prems fail by (intro show_current_image_failure) simp_all
  have idx: "current_index ?s' = int (Suc i mod ?n)"
    using Suc.prems by (simp add: next_index_def zmod_int add.commute)
  have seq: "\<not> is_random ?s'" "images ?s' = images s" "scale_mode_str ?s' m"
    using Suc.prems by (simp_all add: next_index_def scale_mode_str_def)
  have shift: "(Suc i mod ?n + j) mod ?n = (i + Suc j) mod ?n" for j
    by (simp add: mod_add_left_eq)
  have "show_current_image dec g ?s' =
        Some (Inr (shown (?s'\<lparr>current_index := int ((Suc i mod ?n + k) mod length (images ?s'))\<rparr>) m))"
  proof (rule Suc.IH [OF seq(1) _ _ seq(3)])
    show "current_index ?s' = int (Suc i mod ?n)" by (rule idx)
    show "Suc i mod ?n < length (images ?s')"
      using Suc.prems(3) by (simp only: seq) (rule mod_less_divisor, auto)
    show "\<forall>j<k. \<not> dec (images ?s' ! ((Suc i mod ?n + j) mod length (images ?s')))"
    proof (intro allI impI)
      fix j assume "j < k"
      then have "\<not> dec (images s ! ((i + Suc j) mod ?n))" using Suc.prems(5) by blast
      then show "\<not> dec (images ?s' ! ((Suc i mod ?n + j) mod length (images ?s')))"
        by (simp add: seq shift)
    qed
    show "dec (images ?s' ! ((Suc i mod ?n + k) mod length (images ?s')))"
      using Suc.prems(6) by (simp add: seq shift)
  qed
  also have "\<dots> = Some (Inr (shown (s\<lparr>current_index := int ((i + Suc k) mod ?n)\<rparr>) m))"
    using Suc.prems(1,4)
    by (simp add: seq shift shown_def next_index_def scale_mode_str_def)
  finally show ?case using step by simp
qed






lemma load_next_image_success:
  assumes "current_image_index s = int i" "i < length (image_files s)"
    and "dec (image_files s ! i)"
  shows "load_next_image dec s = Some (Inr (loaded s i))"
proof -
  from assms(2) have ne: "image_files s \<noteq> []" by auto
  have "s\<lparr>current_surface := Some (image_files s ! i)\<rparr> = loaded s i"
    by (simp add: loaded_def assms(1) [symmetric])
  then show ?thesis
    using assms ne
    by (subst load_next_image.simps) (simp add: getitem_in_range Let_def)
qed

lemma load_next_image_failure:
  assumes "current_image_index s = int i" "i < length (image_files s)"
    and "\<not> dec (image_files s ! i)"
  shows "load_next_image dec s =
         load_next_image dec
           (s\<lparr>current_surface := None,
              current_image_index := int (Suc i mod length (image_files s))\<rparr>)"
proof -
  from assms(2) have ne: "image_files s \<noteq> []" by auto
  show ?thesis
    using assms ne
    by (subst load_next_image.simps)
       (simp add: getitem_in_range Let_def zmod_int add.commute)
qed

lemma load_next_image_skips:
  assumes "current_image_index s = int i" and "i < length (image_files s)"
    and "\<forall>j<k. \<not> dec (image_files s ! ((i + j) mod length (image_files s)))"
    and "dec (image_files s ! ((i + k) mod length (image_files s)))"
  shows "load_next_image dec s =
         Some (Inr (loaded s ((i + k) mod length (image_files s))))"
  using assms
proof (induction k arbitrary: s i)
  case 0
  then show ?case by (simp add: load_next_image_success)
next
  case (Suc k)
  let ?n = "length (image_files s)"
  let ?s' = "s\<lparr>current_surface := None, current_image_index := int (Suc i mod ?n)\<rparr>"
  from Suc.prems have fail: "\<not> dec (image_files s ! i)"
    by (metis add.right_neutral mod_less zero_less_Suc)
  have step: "load_next_image dec s = load_next_image dec ?s'"
    using Suc.prems fail by (intro load_next_image_failure) simp_all
  have shift: "(Suc i mod ?n + j) mod ?n = (i + Suc j) mod ?n" for j
    by (simp add: mod_add_left_eq)
  have "load_next_image dec ?s' =
        Some (Inr (loaded ?s' ((Suc i mod ?n + k) mod length (image_files ?s'))))"
  proof (rule Suc.IH)
    show "current_image_index ?s' = int (Suc i mod ?n)" by simp
    show "Suc i mod ?n < length (image_files ?s')"
      using Suc.prems(2) by simp (rule mod_less_divisor, auto)
    show "\<forall>j<k. \<not> dec (image_files ?s' ! ((Suc i mod ?n + j) mod length (image_files ?s')))"
    proof (intro allI impI)
      fix j assume "j < k"
      then have "\<not> dec (image_files s ! ((i + Suc j) mod ?n))" using Suc.prems(3) by blast
      then show "\<not> dec (image_files ?s' ! ((Suc i mod ?n + j) mod length (image_files ?s')))"
        by (simp add: shift)
    qed
    show "dec (image_files ?s' ! ((Suc i mod ?n + k) mod length (image_files ?s')))"
      using Suc.prems(4) by (simp add: shift)
  qed
  also have "\<dots> = Some (Inr (loaded s ((i + Suc k) mod ?n)))"
    by (simp add: shift loaded_def)
  finally show ?case using step by simp
qed



lemma window_on_simps:
  "images (window_on xs i r) = xs" "current_index (window_on xs i r) = i"
  "is_random (window_on xs i r) = r" "draws (window_on xs i r) = 0"
  "scale_mode_str (window_on xs i r) ''fit''"
  "(window_on xs i r)\<lparr>current_index := j\<rparr> = window_on xs j r"
  by (simp_all add: window_on_def scale_mode_str_def Config_get_def Config_init_def
      DEFAULT_CONFIG_def)

lemma player_on_simps:
  "image_files (player_on xs i r) = xs" "current_image_index (player_on xs i r) = i"
  "random_order (player_on xs i r) = r" "auto_restart (player_on xs i r) = True"
  "used (player_on xs i r) = 0"
  by (simp_all add: player_on_def)

section \<open>Lemmas on the keys that move through the catalog\<close>



lemma next_image_sequential:
  assumes "images s \<noteq> []" "\<not> is_random s" "scale_mode_str s m"
    and "dec (images s ! nat ((current_index s + 1) mod int (length (images s))))"
  shows "next_image dec g s =
         Some (Inr (shown (s\<lparr>current_index := (current_index s + 1) mod int (length (images s))\<rparr>) m))"
proof -
  let ?s' = "s\<lparr>current_index := (current_index s + 1) mod int (length (images s))\<rparr>"
  have "show_current_image dec g ?s' = Some (Inr (shown ?s' m))"
    using assms by (intro show_current_image_success) (simp_all add: scale_mode_str_def)
  with assms(1,2) show ?thesis by (simp add: next_image_def next_index_def)
qed

lemma next_image_random:
  assumes "images s \<noteq> []" "is_random s" "scale_mode_str s m"
    and "g (draws s) = r" "r < length (images s)" "dec (images s ! r)"
  shows "next_image dec g s =
         Some (Inr (shown (s\<lparr>current_index := int r, draws := Suc (draws s)\<rparr>) m))"
proof -
  let ?s' = "s\<lparr>current_index := int r, draws := Suc (draws s)\<rparr>"
  have "show_current_image dec g ?s' = Some (Inr (shown ?s' m))"
    using assms by (intro show_current_image_success) (simp_all add: scale_mode_str_def)
  moreover have "next_index g s = ?s'"
    using assms by (simp add: next_index_def randint_def randbelow_def)
  ultimately show ?thesis using assms(1) by (simp add: next_image_def)
qed

lemma prev_image_sequential:
  assumes "images s \<noteq> []" "\<not> is_random s" "scale_mode_str s m"
    and "dec (images s ! nat ((current_index s - 1) mod int (length (images s))))"
  shows "prev_image dec g s =
         Some (Inr (shown (s\<lparr>current_index := (current_index s - 1) mod int (length (images s))\<rparr>) m))"
proof -
  let ?s' = "s\<lparr>current_index := (current_index s - 1) mod int (length (images s))\<rparr>"
  have "show_current_image dec g ?s' = Some (Inr (shown ?s' m))"
    using assms by (intro show_current_image_success) (simp_all add: scale_mode_str_def)
  with assms(1,2) show ?thesis by (simp add: prev_image_def)
qed

lemma prev_image_random:
  assumes "is_random s" "scale_mode_str s m"
    and "0 \<le> current_index s" "current_index s < int (length (images s))"
    and "dec (images s ! nat (current_index s))"
  shows "prev_image dec g s = Some (Inr (shown s m))"
proof -
  have "show_current_image dec g s = Some (Inr (shown s m))"
    using assms by (intro show_current_image_success) simp_all
  moreover from assms(3,4) have "images s \<noteq> []" by auto
  ultimately show ?thesis using assms(1) by (simp add: prev_image_def)
qed

lemma ImagePlayer_next_image_step:
  assumes "current_image_index p = int i" "Suc i < length (image_files p)"
    and "dec (image_files p ! Suc i)"
  shows "ImagePlayer_next_image dec g p = Some (Inr (loaded p (Suc i)))"
proof -
  let ?p' = "p\<lparr>current_image_index := int (Suc i)\<rparr>"
  have "load_next_image dec ?p' = Some (Inr (loaded ?p' (Suc i)))"
    using assms by (intro load_next_image_success) simp_all
  moreover have "loaded ?p' (Suc i) = loaded p (Suc i)" by (simp add: loaded_def)
  moreover from assms(2) have "image_files p \<noteq> []" by auto
  ultimately show ?thesis
    using assms(1,2) by (simp add: ImagePlayer_next_image_def Let_def add.commute)
qed

lemma ImagePlayer_next_image_wrap:
  assumes "current_image_index p = int i" "Suc i = length (image_files p)"
    and "\<not> (random_order p \<and> auto_restart p)" "dec (image_files p ! 0)"
  shows "ImagePlayer_next_image dec g p = Some (Inr (loaded p 0))"
proof -
  let ?p' = "p\<lparr>current_image_index := 0\<rparr>"
  from assms(2) have ne: "image_files p \<noteq> []" by auto
  have "load_next_image dec ?p' = Some (Inr (loaded ?p' 0))"
    using assms ne by (intro load_next_image_success) simp_all
  moreover have "loaded ?p' 0 = loaded p 0" by (simp add: loaded_def)
  ultimately show ?thesis
    using assms(1,3) ne assms(2) [symmetric]
    by (auto simp: ImagePlayer_next_image_def Let_def)
qed

lemma ImagePlayer_prev_image_step:
  assumes "current_image_index p = int i" "i < length (image_files p)"
    and "dec (image_files p ! ((i + length (image_files p) - 1) mod length (image_files p)))"
  shows "ImagePlayer_prev_image dec p =
         Some (Inr (loaded p ((i + length (image_files p) - 1) mod length (image_files p))))"
proof -
  let ?n = "length (image_files p)"
  let ?j = "(i + ?n - 1) mod ?n"
  from assms(2) have ne: "image_files p \<noteq> []" by auto
  have load: "load_next_image dec (p\<lparr>current_image_index := int ?j\<rparr>) = Some (Inr (loaded p ?j))"
  proof -
    let ?p' = "p\<lparr>current_image_index := int ?j\<rparr>"
    have j: "?j < ?n" using assms(2) by (intro mod_less_divisor) auto
    have "load_next_image dec ?p' = Some (Inr (loaded ?p' ?j))"
      using assms(3) j by (intro load_next_image_success) simp_all
    moreover have "loaded ?p' ?j = loaded p ?j" by (simp add: loaded_def)
    ultimately show ?thesis by simp
  qed
  show ?thesis
  proof (cases i)
    case 0
    have eq: "int ?n - 1 = int ?j" using ne 0 by (cases "image_files p") simp_all
    have "load_next_image dec (p\<lparr>current_image_index := int ?n - 1\<rparr>)
        = Some (Inr (loaded p ?j))"
      by (simp only: eq load)
    with 0 assms(1) ne show ?thesis
      by (simp add: ImagePlayer_prev_image_def Let_def)
  next
    case (Suc i')
    have eq: "int i' = int ?j" using assms(2) Suc by simp
    have "load_next_image dec (p\<lparr>current_image_index := int i'\<rparr>)
        = Some (Inr (loaded p ?j))"
      by (simp only: eq load)
    with Suc assms(1) ne show ?thesis
      by (simp add: ImagePlayer_prev_image_def Let_def)
  qed
qed







section \<open>Lemmas on the example states\<close>

lemma shown_simps:
  "current_index (shown s m) = current_index s" "images (shown s m) = images s"
  "is_random (shown s m) = is_random s" "draws (shown s m) = draws s"
  "win_config (shown s m) = win_config s" "play_timer (shown s m) = play_timer s"
  "scale_mode_str (shown s m) m' = scale_mode_str s m'"
  "shown ((shown s m)\<lparr>current_index := j\<rparr>) m = shown (s\<lparr>current_index := j\<rparr>) m"
  by (simp_all add: shown_def scale_mode_str_def)

lemma loaded_simps:
  "current_image_index (loaded p i) = int i" "image_files (loaded p i) = image_files p"
  "random_order (loaded p i) = random_order p" "auto_restart (loaded p i) = auto_restart p"
  "used (loaded p i) = used p" "loaded (loaded p i) j = loaded p j"
  by (simp_all add: loaded_def)

lemma abc_simps:
  "length abc = 3" "abc \<noteq> []" "abc ! 0 = ''a.png''" "abc ! Suc 0 = ''b.png''"
  "abc ! 1 = ''b.png''" "abc ! 2 = ''c.png''"
  by (simp_all add: abc_def)

lemma decoder_simps:
  "all_decode x" "\<not> none_decodes x" "all_but b x = (x \<noteq> b)"
  by (simp_all add: all_decode_def none_decodes_def all_but_def)

lemma show_current_image_abc_skip:
  "show_current_image (all_but ''b.png'') g (window_on abc 1 False) =
     Some (Inr (shown (window_on abc 2 False) ''fit''))"
proof -
  have "show_current_image (all_but ''b.png'') g (window_on abc 1 False) =
        Some (Inr (shown ((window_on abc 1 False)
          \<lparr>current_index := int ((1 + 1) mod length (images (window_on abc 1 False)))\<rparr>) ''fit''))"
    by (rule show_current_image_skips)
       (simp_all add: window_on_simps abc_def all_but_def)
  then show ?thesis by (simp add: window_on_simps abc_def)
qed

lemma load_next_image_abc_skip:
  "load_next_image (all_but ''b.png'') (player_on abc 1 r) =
     Some (Inr (loaded (player_on abc 1 r) 2))"
proof -
  have "load_next_image (all_but ''b.png'') (player_on abc 1 r) =
        Some (Inr (loaded (player_on abc 1 r)
          ((1 + 1) mod length (image_files (player_on abc 1 r)))))"
    by (rule load_next_image_skips)
       (simp_all add: player_on_simps abc_def all_but_def)
  then show ?thesis by (simp add: player_on_simps abc_def numeral_2_eq_2)
qed

lemma next_image_abc:
  assumes "j = (i + 1) mod 3"
  shows "next_image all_decode g (shown (window_on abc i False) ''fit'') =
         Some (Inr (shown (window_on abc j False) ''fit''))"
proof -
  let ?s = "shown (window_on abc i False) ''fit''"
  have "next_image all_decode g ?s =
        Some (Inr (shown (?s\<lparr>current_index :=
          (current_index ?s + 1) mod int (length (images ?s))\<rparr>) ''fit''))"
    by (rule next_image_sequential)
       (simp_all add: shown_simps window_on_simps abc_simps decoder_simps)
  then show ?thesis
    by (simp add: shown_simps window_on_simps abc_simps assms)
qed

lemma next_image_abc_first:
  "next_image all_decode g (window_on abc 0 False) =
   Some (Inr (shown (window_on abc 1 False) ''fit''))"
proof -
  let ?s = "window_on abc 0 False"
  have "next_image all_decode g ?s =
        Some (Inr (shown (?s\<lparr>current_index :=
          (current_index ?s + 1) mod int (length (images ?s))\<rparr>) ''fit''))"
    by (rule next_image_sequential)
       (simp_all add: window_on_simps abc_simps decoder_simps)
  then show ?thesis
    by (simp add: window_on_simps abc_simps)
qed

section \<open>Lemmas on shuffling\<close>

lemma shuffle_loop_mset:
  "i < length x \<Longrightarrow> mset (shuffle_loop g k i x) = mset x"
proof (induction i arbitrary: k x)
  case 0
  show ?case by simp
next
  case (Suc i)
  let ?j = "randbelow g k (Suc i + 1)"
  have j: "?j < length x" using Suc.prems by (simp add: randbelow_def) (meson less_Suc_eq_le less_le_trans mod_less_divisor not_less zero_less_Suc)
  let ?x' = "x[Suc i := x ! ?j, ?j := x ! Suc i]"
  have "mset ?x' = mset x" using j Suc.prems by (rule mset_swap)
  moreover have "mset (shuffle_loop g (Suc k) i ?x') = mset ?x'"
    using Suc.prems by (intro Suc.IH) simp
  ultimately show ?case by (simp add: Let_def)
qed

lemma mset_shuffle: "mset (shuffle g k x) = mset x"
proof (cases x)
  case Nil
  then show ?thesis by (simp add: shuffle_def)
next
  case (Cons a x')
  then show ?thesis by (simp add: shuffle_def shuffle_loop_mset)
qed

lemma length_shuffle: "length (shuffle g k x) = length x"
  using mset_shuffle [of g k x] by (metis size_mset)

lemma set_shuffle: "set (shuffle g k x) = set x"
  using mset_shuffle [of g k x] by (metis set_mset_mset)

lemma shuffle_eq_Nil: "shuffle g k x = [] \<longleftrightarrow> x = []"
  using length_shuffle [of g k x] by (metis length_0_conv)

lemma shuffle_two_keeps:
  "g k mod 2 = 1 \<Longrightarrow> shuffle g k [a, b] = [a, b]"
  by (simp add: shuffle_def randbelow_def numeral_2_eq_2)

lemma shuffle_keeps_order_example:
  "shuffle (always 1) k [''a.png'', ''b.png''] = [''a.png'', ''b.png'']"
  by (simp add: shuffle_def always_def randbelow_def numeral_2_eq_2)

lemma ImagePlayer_next_image_wrap_random:
  assumes "current_image_index p = int i" "Suc i = length (image_files p)"
    and "random_order p" "auto_restart p"
    and "dec (shuffle g (used p) (image_files p) ! 0)"
  shows "ImagePlayer_next_image dec g p = Some (Inr (loaded (ImageLoader_shuffle g p) 0))"
proof -
  from assms(2) have ne: "image_files p \<noteq> []" by auto
  let ?q = "ImageLoader_shuffle g (p\<lparr>current_image_index := 0\<rparr>)"
  have q: "current_image_index ?q = int 0" "0 < length (image_files ?q)"
    "image_files ?q = shuffle g (used p) (image_files p)"
    using ne by (simp_all add: ImageLoader_shuffle_def length_shuffle)
  have "load_next_image dec ?q = Some (Inr (loaded ?q 0))"
    using q(1,2) assms(5) by (intro load_next_image_success) (simp_all add: q(3))
  moreover have "loaded ?q 0 = loaded (ImageLoader_shuffle g p) 0"
    using ne by (simp add: loaded_def ImageLoader_shuffle_def)
  ultimately show ?thesis
    using assms(1,3,4) ne assms(2) [symmetric]
    by (simp add: ImagePlayer_next_image_def Let_def)
qed

section \<open>Lemmas on toggling the order mode\<close>

lemma Config_get_Config_set_other:
  "k \<noteq> k' \<Longrightarrow> Config_get (Config_set c k v) k' d = Config_get c k' d"
  by (simp add: Config_get_def Config_set_def Config_save_def update_conv')

lemma config_Config_set_other:
  "k \<noteq> k' \<Longrightarrow> map_of (config (Config_set c k v)) k' = map_of (config c) k'"
  by (simp add: Config_set_def Config_save_def update_conv')

lemma toggle_random_to_sequential:
  assumes "is_random s" "scale_mode_str s m"
    and "0 \<le> current_index s" "current_index s < int (length (images s))"
    and "dec (images s ! nat (current_index s))"
  shows "toggle_random dec g s =
         Some (Inr (shown (s\<lparr>is_random := False,
            win_config := Config_set (win_config s) ''random'' (JBool False)\<rparr>) m))"
proof -
  let ?s' = "s\<lparr>is_random := False,
            win_config := Config_set (win_config s) ''random'' (JBool False)\<rparr>"
  have "show_current_image dec g ?s' = Some (Inr (shown ?s' m))"
    using assms
    by (intro show_current_image_success)
       (simp_all add: scale_mode_str_def Config_get_Config_set_other)
  with assms(1) show ?thesis by (simp add: toggle_random_def Let_def)
qed

lemma toggle_random_to_random:
  assumes "\<not> is_random s" "scale_mode_str s m"
    and "0 \<le> current_index s" "current_index s < int (length (images s))"
    and "dec (shuffle g (draws s) (images s) ! nat (current_index s))"
  shows "toggle_random dec g s =
         Some (Inr (shown (s\<lparr>is_random := True,
            win_config := Config_set (win_config s) ''random'' (JBool True),
            images := shuffle g (draws s) (images s),
            draws := draws s + (length (images s) - 1)\<rparr>) m))"
proof -
  let ?s' = "s\<lparr>is_random := True,
            win_config := Config_set (win_config s) ''random'' (JBool True),
            images := shuffle g (draws s) (images s),
            draws := draws s + (length (images s) - 1)\<rparr>"
  have "show_current_image dec g ?s' = Some (Inr (shown ?s' m))"
    using assms
    by (intro show_current_image_success)
       (simp_all add: scale_mode_str_def Config_get_Config_set_other length_shuffle)
  with assms(1) show ?thesis by (simp add: toggle_random_def Let_def)
qed

lemma toggle_random_order_to_sequential:
  assumes "random_order p" "image_files p \<noteq> []" "dec (sort (image_files p) ! 0)"
  shows "toggle_random_order dec g p =
         Some (Inr (p\<lparr>random_order := False, image_files := sort (image_files p),
                      current_image_index := 0,
                      current_surface := Some (sort (image_files p) ! 0)\<rparr>))"
proof -
  let ?q = "p\<lparr>random_order := False, image_files := sort (image_files p),
              current_image_index := 0\<rparr>"
  have "load_next_image dec ?q = Some (Inr (loaded ?q 0))"
    using assms(2,3) by (intro load_next_image_success) simp_all
  then show ?thesis
    using assms(1,2)
    by (simp add: toggle_random_order_def ImageLoader_sort_def Let_def loaded_def)
qed

lemma toggle_random_order_to_random:
  assumes "\<not> random_order p" "image_files p \<noteq> []"
    and "dec (shuffle g (used p) (image_files p) ! 0)"
  shows "toggle_random_order dec g p =
         Some (Inr (p\<lparr>random_order := True,
                      image_files := shuffle g (used p) (image_files p),
                      used := used p + (length (image_files p) - 1),
                      current_image_index := 0,
                      current_surface := Some (shuffle g (used p) (image_files p) ! 0)\<rparr>))"
proof -
  let ?q = "p\<lparr>random_order := True,
              image_files := shuffle g (used p) (image_files p),
              used := used p + (length (image_files p) - 1),
              current_image_index := 0\<rparr>"
  have "load_next_image dec ?q = Some (Inr (loaded ?q 0))"
    using assms(2,3) by (intro load_next_image_success) (simp_all add: length_shuffle)
  then show ?thesis
    using assms(1,2)
    by (simp add: toggle_random_order_def ImageLoader_shuffle_def Let_def loaded_def)
qed

section \<open>Skipping images that do not decode\<close>




section \<open>The keys that move through the catalog\<close>



text \<open>
  C3 (amended). On a catalog that is not empty, \<^verbatim>\<open>next\<close> in sequential order sets the
  index to (index + 1) mod length and shows the image there when it decodes (when it
  does not, the skipping of C1 moves the index further). In random order the Qt player
  takes the next output of the generator as an index below the length, the current
  index not excluded; the pygame player draws no index: in either order it steps to
  index + 1, wraps to 0 after the last image, and in random order with \<^verbatim>\<open>auto_restart\<close>
  shuffles the catalog when it wraps. On a.png, b.png, c.png in sequential order from
  index 0, with every image decoding, three presses give the indices 1, 2, 0 in both
  players. That the draw is uniform is not expressed in this model.
\<close>

theorem next_moves_index:
  "(images s \<noteq> [] \<and> \<not> is_random s \<and> scale_mode_str s m
      \<and> dec (images s ! nat ((current_index s + 1) mod int (length (images s)))) \<longrightarrow>
      next_image dec g s =
        Some (Inr (shown (s\<lparr>current_index :=
                     (current_index s + 1) mod int (length (images s))\<rparr>) m)))
   \<and> (images s \<noteq> [] \<and> is_random s \<and> scale_mode_str s m
      \<and> g (draws s) = r \<and> r < length (images s) \<and> dec (images s ! r) \<longrightarrow>
      next_image dec g s =
        Some (Inr (shown (s\<lparr>current_index := int r, draws := Suc (draws s)\<rparr>) m)))
   \<and> (current_image_index p = int i \<and> Suc i < length (image_files p)
      \<and> dec (image_files p ! Suc i) \<longrightarrow>
      ImagePlayer_next_image dec g p = Some (Inr (loaded p (Suc i))))
   \<and> (current_image_index p = int i \<and> Suc i = length (image_files p)
      \<and> \<not> (random_order p \<and> auto_restart p) \<and> dec (image_files p ! 0) \<longrightarrow>
      ImagePlayer_next_image dec g p = Some (Inr (loaded p 0)))
   \<and> (current_image_index p = int i \<and> Suc i = length (image_files p)
      \<and> random_order p \<and> auto_restart p
      \<and> dec (shuffle g (used p) (image_files p) ! 0) \<longrightarrow>
      ImagePlayer_next_image dec g p = Some (Inr (loaded (ImageLoader_shuffle g p) 0)))
   \<and> next_image all_decode g (window_on abc 0 False) =
        Some (Inr (shown (window_on abc 1 False) ''fit''))
   \<and> next_image all_decode g (shown (window_on abc 1 False) ''fit'') =
        Some (Inr (shown (window_on abc 2 False) ''fit''))
   \<and> next_image all_decode g (shown (window_on abc 2 False) ''fit'') =
        Some (Inr (shown (window_on abc 0 False) ''fit''))
   \<and> ImagePlayer_next_image all_decode g (player_on abc 0 False) =
        Some (Inr (loaded (player_on abc 0 False) 1))
   \<and> ImagePlayer_next_image all_decode g (loaded (player_on abc 0 False) 1) =
        Some (Inr (loaded (player_on abc 0 False) 2))
   \<and> ImagePlayer_next_image all_decode g (loaded (player_on abc 0 False) 2) =
        Some (Inr (loaded (player_on abc 0 False) 0))"
proof (intro conjI impI)
  assume "images s \<noteq> [] \<and> \<not> is_random s \<and> scale_mode_str s m
      \<and> dec (images s ! nat ((current_index s + 1) mod int (length (images s))))"
  then show "next_image dec g s =
        Some (Inr (shown (s\<lparr>current_index :=
                     (current_index s + 1) mod int (length (images s))\<rparr>) m))"
    by (intro next_image_sequential) simp_all
next
  assume "images s \<noteq> [] \<and> is_random s \<and> scale_mode_str s m
      \<and> g (draws s) = r \<and> r < length (images s) \<and> dec (images s ! r)"
  then show "next_image dec g s =
        Some (Inr (shown (s\<lparr>current_index := int r, draws := Suc (draws s)\<rparr>) m))"
    by (intro next_image_random) simp_all
next
  assume "current_image_index p = int i \<and> Suc i < length (image_files p)
      \<and> dec (image_files p ! Suc i)"
  then show "ImagePlayer_next_image dec g p = Some (Inr (loaded p (Suc i)))"
    by (intro ImagePlayer_next_image_step) simp_all
next
  assume "current_image_index p = int i \<and> Suc i = length (image_files p)
      \<and> \<not> (random_order p \<and> auto_restart p) \<and> dec (image_files p ! 0)"
  then show "ImagePlayer_next_image dec g p = Some (Inr (loaded p 0))"
    by (intro ImagePlayer_next_image_wrap [of p i]) simp_all
next
  assume "current_image_index p = int i \<and> Suc i = length (image_files p)
      \<and> random_order p \<and> auto_restart p
      \<and> dec (shuffle g (used p) (image_files p) ! 0)"
  then show "ImagePlayer_next_image dec g p = Some (Inr (loaded (ImageLoader_shuffle g p) 0))"
    by (intro ImagePlayer_next_image_wrap_random [of p i]) simp_all
next
  show "next_image all_decode g (window_on abc 0 False) =
        Some (Inr (shown (window_on abc 1 False) ''fit''))"
    by (rule next_image_abc_first)
  show "next_image all_decode g (shown (window_on abc 1 False) ''fit'') =
        Some (Inr (shown (window_on abc 2 False) ''fit''))"
    by (rule next_image_abc) simp
  show "next_image all_decode g (shown (window_on abc 2 False) ''fit'') =
        Some (Inr (shown (window_on abc 0 False) ''fit''))"
    by (rule next_image_abc) simp
  have a: "ImagePlayer_next_image all_decode g (player_on abc 0 False) =
        Some (Inr (loaded (player_on abc 0 False) (Suc 0)))"
    by (rule ImagePlayer_next_image_step)
       (simp_all add: player_on_simps abc_simps decoder_simps)
  then show "ImagePlayer_next_image all_decode g (player_on abc 0 False) =
        Some (Inr (loaded (player_on abc 0 False) 1))"
    by simp
  have b: "ImagePlayer_next_image all_decode g (loaded (player_on abc 0 False) 1) =
        Some (Inr (loaded (loaded (player_on abc 0 False) 1) (Suc 1)))"
    by (rule ImagePlayer_next_image_step)
       (simp_all add: loaded_simps player_on_simps abc_simps decoder_simps)
  then show "ImagePlayer_next_image all_decode g (loaded (player_on abc 0 False) 1) =
        Some (Inr (loaded (player_on abc 0 False) 2))"
    by (simp add: loaded_simps numeral_2_eq_2)
  have c: "ImagePlayer_next_image all_decode g (loaded (player_on abc 0 False) 2) =
        Some (Inr (loaded (loaded (player_on abc 0 False) 2) 0))"
    by (rule ImagePlayer_next_image_wrap [of _ 2])
       (simp_all add: loaded_simps player_on_simps abc_simps decoder_simps)
  then show "ImagePlayer_next_image all_decode g (loaded (player_on abc 0 False) 2) =
        Some (Inr (loaded (player_on abc 0 False) 0))"
    by (simp add: loaded_simps)
qed

text \<open>
  The theorem at the catalog a.png, b.png, c.png: the Qt player in sequential order at
  the last image and in random order with the generator giving the current index, the
  pygame player in random order at the first image and in sequential order at the last,
  and the pygame player in random order at the last of two images.
\<close>

theorem next_moves_index_witness:
  "next_image all_decode (always 0) (window_on abc 2 False) =
     Some (Inr (shown (window_on abc 0 False) ''fit''))
   \<and> next_image all_decode (always 1) (window_on abc 1 True) =
     Some (Inr (shown ((window_on abc 1 True)\<lparr>draws := 1\<rparr>) ''fit''))
   \<and> ImagePlayer_next_image all_decode (always 2) (player_on abc 0 True) =
     Some (Inr (loaded (player_on abc 0 True) 1))
   \<and> ImagePlayer_next_image all_decode (always 0) (player_on abc 2 False) =
     Some (Inr (loaded (player_on abc 2 False) 0))
   \<and> ImagePlayer_next_image all_decode (always 1) (player_on [''a.png'', ''b.png''] 1 True) =
     Some (Inr (loaded (ImageLoader_shuffle (always 1)
                          (player_on [''a.png'', ''b.png''] 1 True)) 0))"
proof -
  let ?s = "window_on abc 2 False"
  have "next_image all_decode (always 0) ?s =
        Some (Inr (shown (?s\<lparr>current_index :=
                     (current_index ?s + 1) mod int (length (images ?s))\<rparr>) ''fit''))"
    by (rule next_moves_index [where s = ?s and dec = all_decode and m = "''fit''",
          THEN conjunct1, rule_format])
       (simp add: window_on_simps abc_simps decoder_simps)
  then have c1: "next_image all_decode (always 0) (window_on abc 2 False) =
     Some (Inr (shown (window_on abc 0 False) ''fit''))"
    by (simp add: window_on_simps abc_simps)
  let ?t = "window_on abc 1 True"
  have "next_image all_decode (always 1) ?t =
        Some (Inr (shown (?t\<lparr>current_index := int 1, draws := Suc (draws ?t)\<rparr>) ''fit''))"
    by (rule next_moves_index [where s = ?t and dec = all_decode and m = "''fit''"
          and g = "always 1" and r = 1,
          THEN conjunct2, THEN conjunct1, rule_format])
       (simp add: window_on_simps abc_simps decoder_simps always_def)
  then have c2: "next_image all_decode (always 1) (window_on abc 1 True) =
     Some (Inr (shown ((window_on abc 1 True)\<lparr>draws := 1\<rparr>) ''fit''))"
    by (simp add: window_on_def)
  let ?p = "player_on abc 0 True"
  have "ImagePlayer_next_image all_decode (always 2) ?p = Some (Inr (loaded ?p (Suc 0)))"
    by (rule next_moves_index [where p = ?p and dec = all_decode and i = 0,
          THEN conjunct2, THEN conjunct2, THEN conjunct1, rule_format])
       (simp add: player_on_simps abc_simps decoder_simps)
  then have c3: "ImagePlayer_next_image all_decode (always 2) (player_on abc 0 True) =
     Some (Inr (loaded (player_on abc 0 True) 1))"
    by simp
  let ?q = "player_on abc 2 False"
  have c4: "ImagePlayer_next_image all_decode (always 0) ?q = Some (Inr (loaded ?q 0))"
    by (rule next_moves_index [where p = ?q and dec = all_decode and i = 2,
          THEN conjunct2, THEN conjunct2, THEN conjunct2, THEN conjunct1, rule_format])
       (simp add: player_on_simps abc_simps decoder_simps)
  let ?u = "player_on [''a.png'', ''b.png''] 1 True"
  have c5: "ImagePlayer_next_image all_decode (always 1) ?u =
        Some (Inr (loaded (ImageLoader_shuffle (always 1) ?u) 0))"
    by (rule next_moves_index [where p = ?u and dec = all_decode and i = 1,
          THEN conjunct2, THEN conjunct2, THEN conjunct2, THEN conjunct2, THEN conjunct1,
          rule_format])
       (simp add: player_on_simps decoder_simps)
  from c1 c2 c3 c4 c5 show ?thesis by (intro conjI)
qed

text \<open>
  The claim as stated fails. In random order the pygame player goes from the first image
  to the second whatever the generator gives, and the Qt player in sequential order,
  when b.png does not decode, ends on index 2 and not on (0 + 1) mod 3.
\<close>

theorem next_is_not_always_a_draw_or_one_step:
  "ImagePlayer_next_image all_decode (always 0) (player_on abc 0 True) =
     Some (Inr (loaded (player_on abc 0 True) 1))
   \<and> ImagePlayer_next_image all_decode (always 2) (player_on abc 0 True) =
     Some (Inr (loaded (player_on abc 0 True) 1))
   \<and> next_image (all_but ''b.png'') (always 0) (window_on abc 0 False) =
     Some (Inr (shown (window_on abc 2 False) ''fit''))"
proof (intro conjI)
  have "ImagePlayer_next_image all_decode g (player_on abc 0 True) =
        Some (Inr (loaded (player_on abc 0 True) (Suc 0)))" for g
    by (rule ImagePlayer_next_image_step)
       (simp_all add: player_on_simps abc_simps decoder_simps)
  then show "ImagePlayer_next_image all_decode (always 0) (player_on abc 0 True) =
     Some (Inr (loaded (player_on abc 0 True) 1))"
    and "ImagePlayer_next_image all_decode (always 2) (player_on abc 0 True) =
     Some (Inr (loaded (player_on abc 0 True) 1))"
    by simp_all
  have "next_index (always 0) (window_on abc 0 False) = window_on abc 1 False"
    by (simp add: next_index_def window_on_def abc_def)
  then show "next_image (all_but ''b.png'') (always 0) (window_on abc 0 False) =
     Some (Inr (shown (window_on abc 2 False) ''fit''))"
    by (simp add: next_image_def window_on_simps abc_simps show_current_image_abc_skip)
qed

text \<open>
  C4 (amended). On a catalog that is not empty, \<^verbatim>\<open>previous\<close> in sequential order sets the
  index to (index - 1) mod length and shows the image there when it decodes. In random
  order the Qt player leaves the index as it is and shows the current image again when
  it decodes. The pygame player has no such guard: in random order, as in sequential
  order, \<^verbatim>\<open>previous\<close> steps one image back and wraps from the first to the last.
\<close>

theorem previous_moves_index:
  "(images s \<noteq> [] \<and> \<not> is_random s \<and> scale_mode_str s m
      \<and> dec (images s ! nat ((current_index s - 1) mod int (length (images s)))) \<longrightarrow>
      prev_image dec g s =
        Some (Inr (shown (s\<lparr>current_index :=
                     (current_index s - 1) mod int (length (images s))\<rparr>) m)))
   \<and> (is_random s \<and> scale_mode_str s m
      \<and> 0 \<le> current_index s \<and> current_index s < int (length (images s))
      \<and> dec (images s ! nat (current_index s)) \<longrightarrow>
      prev_image dec g s = Some (Inr (shown s m)))
   \<and> current_index (shown s m) = current_index s
   \<and> (current_image_index p = int i \<and> i < length (image_files p)
      \<and> dec (image_files p ! ((i + length (image_files p) - 1) mod length (image_files p)))
      \<longrightarrow>
      ImagePlayer_prev_image dec p =
        Some (Inr (loaded p ((i + length (image_files p) - 1) mod length (image_files p)))))"
proof (intro conjI impI)
  assume "images s \<noteq> [] \<and> \<not> is_random s \<and> scale_mode_str s m
      \<and> dec (images s ! nat ((current_index s - 1) mod int (length (images s))))"
  then show "prev_image dec g s =
        Some (Inr (shown (s\<lparr>current_index :=
                     (current_index s - 1) mod int (length (images s))\<rparr>) m))"
    by (intro prev_image_sequential) simp_all
next
  assume "is_random s \<and> scale_mode_str s m
      \<and> 0 \<le> current_index s \<and> current_index s < int (length (images s))
      \<and> dec (images s ! nat (current_index s))"
  then show "prev_image dec g s = Some (Inr (shown s m))"
    by (intro prev_image_random) simp_all
next
  show "current_index (shown s m) = current_index s" by (simp add: shown_simps)
next
  assume "current_image_index p = int i \<and> i < length (image_files p)
      \<and> dec (image_files p ! ((i + length (image_files p) - 1) mod length (image_files p)))"
  then show "ImagePlayer_prev_image dec p =
        Some (Inr (loaded p ((i + length (image_files p) - 1) mod length (image_files p))))"
    by (intro ImagePlayer_prev_image_step) simp_all
qed

text \<open>
  The theorem at the catalog a.png, b.png, c.png: the Qt player in sequential order at
  the first image and in random order at the second, the pygame player in sequential
  order at the first image.
\<close>

theorem previous_moves_index_witness:
  "prev_image all_decode (always 0) (window_on abc 0 False) =
     Some (Inr (shown (window_on abc 2 False) ''fit''))
   \<and> prev_image all_decode (always 0) (window_on abc 1 True) =
     Some (Inr (shown (window_on abc 1 True) ''fit''))
   \<and> ImagePlayer_prev_image all_decode (player_on abc 0 False) =
     Some (Inr (loaded (player_on abc 0 False) 2))"
proof -
  let ?s = "window_on abc 0 False"
  have "prev_image all_decode (always 0) ?s =
        Some (Inr (shown (?s\<lparr>current_index :=
                     (current_index ?s - 1) mod int (length (images ?s))\<rparr>) ''fit''))"
    by (rule previous_moves_index [where s = ?s and dec = all_decode and m = "''fit''",
          THEN conjunct1, rule_format])
       (simp add: window_on_simps abc_simps decoder_simps)
  then have c1: "prev_image all_decode (always 0) (window_on abc 0 False) =
     Some (Inr (shown (window_on abc 2 False) ''fit''))"
    by (simp add: window_on_simps abc_simps)
  let ?t = "window_on abc 1 True"
  have c2: "prev_image all_decode (always 0) ?t = Some (Inr (shown ?t ''fit''))"
    by (rule previous_moves_index [where s = ?t and dec = all_decode and m = "''fit''",
          THEN conjunct2, THEN conjunct1, rule_format])
       (simp add: window_on_simps abc_simps decoder_simps)
  let ?p = "player_on abc 0 False"
  have "ImagePlayer_prev_image all_decode ?p =
        Some (Inr (loaded ?p ((0 + length (image_files ?p) - 1) mod length (image_files ?p))))"
    by (rule previous_moves_index [where p = ?p and dec = all_decode and i = 0,
          THEN conjunct2, THEN conjunct2, THEN conjunct2, rule_format])
       (simp add: player_on_simps abc_simps decoder_simps)
  then have c3: "ImagePlayer_prev_image all_decode (player_on abc 0 False) =
     Some (Inr (loaded (player_on abc 0 False) 2))"
    by (simp add: player_on_simps abc_simps)
  from c1 c2 c3 show ?thesis by (intro conjI)
qed

text \<open>
  The claim as stated fails. In random order the pygame player goes from the second
  image back to the first, and the Qt player in sequential order at c.png, when b.png
  does not decode, ends on c.png again and not on index 1.
\<close>

theorem previous_is_not_disabled_in_random_order:
  "ImagePlayer_prev_image all_decode (player_on abc 1 True) =
     Some (Inr (loaded (player_on abc 1 True) 0))
   \<and> prev_image (all_but ''b.png'') (always 0) (window_on abc 2 False) =
     Some (Inr (shown (window_on abc 2 False) ''fit''))"
proof (intro conjI)
  have "ImagePlayer_prev_image all_decode (player_on abc 1 True) =
        Some (Inr (loaded (player_on abc 1 True)
          ((1 + length (image_files (player_on abc 1 True)) - 1)
             mod length (image_files (player_on abc 1 True)))))"
    by (rule ImagePlayer_prev_image_step)
       (simp_all add: player_on_simps abc_simps decoder_simps)
  then show "ImagePlayer_prev_image all_decode (player_on abc 1 True) =
     Some (Inr (loaded (player_on abc 1 True) 0))"
    by (simp add: player_on_simps abc_simps)
  show "prev_image (all_but ''b.png'') (always 0) (window_on abc 2 False) =
     Some (Inr (shown (window_on abc 2 False) ''fit''))"
    by (simp add: prev_image_def window_on_simps abc_simps show_current_image_abc_skip)
qed

section \<open>Toggling the order mode\<close>

text \<open>
  C2 (amended). Toggling to random order shuffles the catalog into a permutation of
  itself, which may be the order it had. In the pygame player, toggling to sequential
  order on a catalog that is not empty sorts the catalog into lexicographic order of
  the paths and sets the index to 0 before the image is loaded, so that the first image
  is shown when it decodes, and toggling to random order sets the index to 0 likewise.
  In the Qt player, toggling to sequential order leaves the catalog in the order it has
  and the index where it is; toggling in either direction shows the image at the
  current index again when it decodes, and stores the new mode in the settings.
\<close>

theorem toggle_order_mode:
  "mset (shuffle g k x) = mset x
   \<and> (random_order p \<and> image_files p \<noteq> [] \<and> dec (sort (image_files p) ! 0) \<longrightarrow>
        toggle_random_order dec g p =
          Some (Inr (p\<lparr>random_order := False, image_files := sort (image_files p),
                       current_image_index := 0,
                       current_surface := Some (sort (image_files p) ! 0)\<rparr>)))
   \<and> sorted (sort (image_files p)) \<and> mset (sort (image_files p)) = mset (image_files p)
   \<and> (\<not> random_order p \<and> image_files p \<noteq> []
        \<and> dec (shuffle g (used p) (image_files p) ! 0) \<longrightarrow>
        toggle_random_order dec g p =
          Some (Inr (p\<lparr>random_order := True,
                       image_files := shuffle g (used p) (image_files p),
                       used := used p + (length (image_files p) - 1),
                       current_image_index := 0,
                       current_surface := Some (shuffle g (used p) (image_files p) ! 0)\<rparr>)))
   \<and> (is_random s \<and> scale_mode_str s m
        \<and> 0 \<le> current_index s \<and> current_index s < int (length (images s))
        \<and> dec (images s ! nat (current_index s)) \<longrightarrow>
        toggle_random dec g s =
          Some (Inr (shown (s\<lparr>is_random := False,
             win_config := Config_set (win_config s) ''random'' (JBool False)\<rparr>) m)))
   \<and> (\<not> is_random s \<and> scale_mode_str s m
        \<and> 0 \<le> current_index s \<and> current_index s < int (length (images s))
        \<and> dec (shuffle g (draws s) (images s) ! nat (current_index s)) \<longrightarrow>
        toggle_random dec g s =
          Some (Inr (shown (s\<lparr>is_random := True,
             win_config := Config_set (win_config s) ''random'' (JBool True),
             images := shuffle g (draws s) (images s),
             draws := draws s + (length (images s) - 1)\<rparr>) m)))"
proof (intro conjI impI)
  show "mset (shuffle g k x) = mset x" by (rule mset_shuffle)
  show "sorted (sort (image_files p))" by simp
  show "mset (sort (image_files p)) = mset (image_files p)" by simp
next
  assume "random_order p \<and> image_files p \<noteq> [] \<and> dec (sort (image_files p) ! 0)"
  then show "toggle_random_order dec g p =
          Some (Inr (p\<lparr>random_order := False, image_files := sort (image_files p),
                       current_image_index := 0,
                       current_surface := Some (sort (image_files p) ! 0)\<rparr>))"
    by (intro toggle_random_order_to_sequential) simp_all
next
  assume "\<not> random_order p \<and> image_files p \<noteq> []
        \<and> dec (shuffle g (used p) (image_files p) ! 0)"
  then show "toggle_random_order dec g p =
          Some (Inr (p\<lparr>random_order := True,
                       image_files := shuffle g (used p) (image_files p),
                       used := used p + (length (image_files p) - 1),
                       current_image_index := 0,
                       current_surface := Some (shuffle g (used p) (image_files p) ! 0)\<rparr>))"
    by (intro toggle_random_order_to_random) simp_all
next
  assume "is_random s \<and> scale_mode_str s m
        \<and> 0 \<le> current_index s \<and> current_index s < int (length (images s))
        \<and> dec (images s ! nat (current_index s))"
  then show "toggle_random dec g s =
          Some (Inr (shown (s\<lparr>is_random := False,
             win_config := Config_set (win_config s) ''random'' (JBool False)\<rparr>) m))"
    by (intro toggle_random_to_sequential) simp_all
next
  assume "\<not> is_random s \<and> scale_mode_str s m
        \<and> 0 \<le> current_index s \<and> current_index s < int (length (images s))
        \<and> dec (shuffle g (draws s) (images s) ! nat (current_index s))"
  then show "toggle_random dec g s =
          Some (Inr (shown (s\<lparr>is_random := True,
             win_config := Config_set (win_config s) ''random'' (JBool True),
             images := shuffle g (draws s) (images s),
             draws := draws s + (length (images s) - 1)\<rparr>) m))"
    by (intro toggle_random_to_random) simp_all
qed

text \<open>
  The theorem at the pygame player on c.png, a.png, b.png in random order and on a.png,
  b.png, c.png in sequential order, and at the Qt player on b.png, a.png in random order
  at the second image and on a.png, b.png, c.png in sequential order at the first.
\<close>

theorem toggle_order_mode_witness:
  "toggle_random_order all_decode (always 0) (player_on [''c.png'', ''a.png'', ''b.png''] 2 True) =
     Some (Inr ((player_on [''c.png'', ''a.png'', ''b.png''] 2 True)
       \<lparr>random_order := False, image_files := sort [''c.png'', ''a.png'', ''b.png''],
        current_image_index := 0,
        current_surface := Some (sort [''c.png'', ''a.png'', ''b.png''] ! 0)\<rparr>))
   \<and> toggle_random_order all_decode (always 0) (player_on abc 2 False) =
     Some (Inr ((player_on abc 2 False)
       \<lparr>random_order := True, image_files := shuffle (always 0) 0 abc,
        used := 2, current_image_index := 0,
        current_surface := Some (shuffle (always 0) 0 abc ! 0)\<rparr>))
   \<and> toggle_random all_decode (always 0) (window_on [''b.png'', ''a.png''] 1 True) =
     Some (Inr (shown ((window_on [''b.png'', ''a.png''] 1 True)
       \<lparr>is_random := False,
        win_config := Config_set (win_config (window_on [''b.png'', ''a.png''] 1 True))
                        ''random'' (JBool False)\<rparr>) ''fit''))
   \<and> toggle_random all_decode (always 0) (window_on abc 0 False) =
     Some (Inr (shown ((window_on abc 0 False)
       \<lparr>is_random := True,
        win_config := Config_set (win_config (window_on abc 0 False)) ''random'' (JBool True),
        images := shuffle (always 0) 0 abc, draws := 2\<rparr>) ''fit''))"
proof -
  let ?p = "player_on [''c.png'', ''a.png'', ''b.png''] 2 True"
  have "toggle_random_order all_decode (always 0) ?p =
          Some (Inr (?p\<lparr>random_order := False, image_files := sort (image_files ?p),
                       current_image_index := 0,
                       current_surface := Some (sort (image_files ?p) ! 0)\<rparr>))"
    by (rule toggle_order_mode [where p = ?p and dec = all_decode and g = "always 0",
          THEN conjunct2, THEN conjunct1, rule_format])
       (simp add: player_on_simps decoder_simps)
  then have c1: "toggle_random_order all_decode (always 0) ?p =
     Some (Inr (?p\<lparr>random_order := False, image_files := sort [''c.png'', ''a.png'', ''b.png''],
        current_image_index := 0,
        current_surface := Some (sort [''c.png'', ''a.png'', ''b.png''] ! 0)\<rparr>))"
    by (simp only: player_on_simps)
  let ?q = "player_on abc 2 False"
  have "toggle_random_order all_decode (always 0) ?q =
          Some (Inr (?q\<lparr>random_order := True,
                       image_files := shuffle (always 0) (used ?q) (image_files ?q),
                       used := used ?q + (length (image_files ?q) - 1),
                       current_image_index := 0,
                       current_surface := Some (shuffle (always 0) (used ?q) (image_files ?q) ! 0)\<rparr>))"
    by (rule toggle_order_mode [where p = ?q and dec = all_decode and g = "always 0",
          THEN conjunct2, THEN conjunct2, THEN conjunct2, THEN conjunct2, THEN conjunct1,
          rule_format])
       (simp add: player_on_simps decoder_simps abc_simps)
  then have c2: "toggle_random_order all_decode (always 0) ?q =
     Some (Inr (?q\<lparr>random_order := True, image_files := shuffle (always 0) 0 abc,
        used := 2, current_image_index := 0,
        current_surface := Some (shuffle (always 0) 0 abc ! 0)\<rparr>))"
    by (simp add: player_on_simps abc_simps)
  let ?s = "window_on [''b.png'', ''a.png''] 1 True"
  have c3: "toggle_random all_decode (always 0) ?s =
          Some (Inr (shown (?s\<lparr>is_random := False,
             win_config := Config_set (win_config ?s) ''random'' (JBool False)\<rparr>) ''fit''))"
    by (rule toggle_order_mode [where s = ?s and dec = all_decode and g = "always 0"
          and m = "''fit''",
          THEN conjunct2, THEN conjunct2, THEN conjunct2, THEN conjunct2, THEN conjunct2,
          THEN conjunct1, rule_format])
       (simp add: window_on_simps decoder_simps)
  let ?t = "window_on abc 0 False"
  have "toggle_random all_decode (always 0) ?t =
          Some (Inr (shown (?t\<lparr>is_random := True,
             win_config := Config_set (win_config ?t) ''random'' (JBool True),
             images := shuffle (always 0) (draws ?t) (images ?t),
             draws := draws ?t + (length (images ?t) - 1)\<rparr>) ''fit''))"
    by (rule toggle_order_mode [where s = ?t and dec = all_decode and g = "always 0"
          and m = "''fit''",
          THEN conjunct2, THEN conjunct2, THEN conjunct2, THEN conjunct2, THEN conjunct2,
          THEN conjunct2, rule_format])
       (simp add: window_on_simps decoder_simps abc_simps)
  then have c4: "toggle_random all_decode (always 0) ?t =
     Some (Inr (shown (?t\<lparr>is_random := True,
        win_config := Config_set (win_config ?t) ''random'' (JBool True),
        images := shuffle (always 0) 0 abc, draws := 2\<rparr>) ''fit''))"
    by (simp add: window_on_simps abc_simps numeral_2_eq_2)
  from c1 c2 c3 c4 show ?thesis by (intro conjI)
qed

text \<open>
  The claim as stated fails. With a generator that gives 1, toggling to random order on
  a.png, b.png leaves the catalog in that order, in both players. In the Qt player,
  toggling to sequential order on b.png, a.png at index 1 leaves the catalog unsorted
  and the index at 1.
\<close>

theorem toggle_keeps_order:
  "map_option (map_sum id images)
     (toggle_random all_decode (always 1) (window_on [''a.png'', ''b.png''] 0 False))
     = Some (Inr [''a.png'', ''b.png''])
   \<and> map_option (map_sum id image_files)
     (toggle_random_order all_decode (always 1) (player_on [''a.png'', ''b.png''] 0 False))
     = Some (Inr [''a.png'', ''b.png''])
   \<and> map_option (map_sum id images)
     (toggle_random all_decode (always 1) (window_on [''b.png'', ''a.png''] 1 True))
     = Some (Inr [''b.png'', ''a.png''])
   \<and> map_option (map_sum id current_index)
     (toggle_random all_decode (always 1) (window_on [''b.png'', ''a.png''] 1 True))
     = Some (Inr 1)"
proof (intro conjI)
  let ?s = "window_on [''a.png'', ''b.png''] 0 False"
  have "toggle_random all_decode (always 1) ?s =
          Some (Inr (shown (?s\<lparr>is_random := True,
             win_config := Config_set (win_config ?s) ''random'' (JBool True),
             images := shuffle (always 1) (draws ?s) (images ?s),
             draws := draws ?s + (length (images ?s) - 1)\<rparr>) ''fit''))"
    by (rule toggle_random_to_random)
       (simp_all add: window_on_simps decoder_simps)
  then show "map_option (map_sum id images) (toggle_random all_decode (always 1) ?s)
     = Some (Inr [''a.png'', ''b.png''])"
    by (simp add: shown_simps window_on_simps shuffle_two_keeps always_def)
  let ?p = "player_on [''a.png'', ''b.png''] 0 False"
  have "toggle_random_order all_decode (always 1) ?p =
         Some (Inr (?p\<lparr>random_order := True,
                      image_files := shuffle (always 1) (used ?p) (image_files ?p),
                      used := used ?p + (length (image_files ?p) - 1),
                      current_image_index := 0,
                      current_surface := Some (shuffle (always 1) (used ?p) (image_files ?p) ! 0)\<rparr>))"
    by (rule toggle_random_order_to_random)
       (simp_all add: player_on_simps decoder_simps)
  then show "map_option (map_sum id image_files) (toggle_random_order all_decode (always 1) ?p)
     = Some (Inr [''a.png'', ''b.png''])"
    by (simp add: player_on_simps shuffle_two_keeps always_def)
  let ?t = "window_on [''b.png'', ''a.png''] 1 True"
  have t: "toggle_random all_decode (always 1) ?t =
          Some (Inr (shown (?t\<lparr>is_random := False,
             win_config := Config_set (win_config ?t) ''random'' (JBool False)\<rparr>) ''fit''))"
    by (rule toggle_random_to_sequential)
       (simp_all add: window_on_simps decoder_simps)
  from t show "map_option (map_sum id images) (toggle_random all_decode (always 1) ?t)
     = Some (Inr [''b.png'', ''a.png''])"
    by (simp add: shown_simps window_on_simps)
  from t show "map_option (map_sum id current_index) (toggle_random all_decode (always 1) ?t)
     = Some (Inr 1)"
    by (simp add: shown_simps window_on_simps)
qed

section \<open>A scan that finds nothing\<close>



section \<open>The settings stores\<close>



text \<open>
  C9. Saving the settings and loading them again should give the same settings. In the
  pygame player the default \<^verbatim>\<open>valid_extensions\<close> is a set, which \<^verbatim>\<open>json.dump\<close> cannot
  write: saving a settings object whose order mode was switched to sequential leaves a
  file that is no JSON document, and loading it gives the default, random, order mode.
\<close>

theorem save_to_file_loses_settings:
  "save_to_file (AList.update ''random_order'' (PBool False) Config_new) True Missing = Broken
   \<and> map_of (load_from_file
        (save_to_file (AList.update ''random_order'' (PBool False) Config_new) True Missing))
        ''random_order'' = Some (PBool True)
   \<and> map_of (AList.update ''random_order'' (PBool False) Config_new) ''random_order''
        = Some (PBool False)"
  by code_simp

section \<open>The file-counting utility: the error return\<close>

text \<open>
  C10. \<^verbatim>\<open>count_all_files\<close> is meant to return -1 when a permission error occurs during
  the traversal. On a readable folder holding one file and a sub-folder that may not be
  listed, the walk drops the error and the function returns 1, the number of files it
  could see.
\<close>

theorem count_all_files_unlistable_subfolder:
  "count_all_files locked_tree [] = 1"
  by (simp add: count_all_files_def locked_tree_def)

end
